theory Spec2Isabelle
  imports Main
begin

section \<open>The producer side: \<open>queue\<close> (filter_mongo_db_plugin.cpp, lines 103-124)\<close>

text \<open>
  The template function \<open>queue\<close> declares \<open>sleep_time\<close> and \<open>last_queue_size\<close> as
  locals, initialised to 100 and 0 on every call. When the queue is longer than
  \<open>queue_size\<close> the lock is released and \<open>queue.size()\<close> is read again; the argument
  \<open>observed_size\<close> of \<open>sleep_time_of\<close> is the length seen by that second read.
  \<open>sleep_time\<close> is a C++ \<open>int\<close>; its values stay between 0 and 200, so no wrap-around
  can occur and \<open>int\<close> is exact.
\<close>

definition sleep_time_of :: "nat \<Rightarrow> int" where
  "sleep_time_of observed_size =
     (let sleep_time = (100::int); last_queue_size = (0::nat) in
      if last_queue_size < observed_size then sleep_time + 100
      else (let sleep_time = sleep_time - 100 in
            if sleep_time < 0 then 100 else sleep_time))"

text \<open>
  \<open>queue\<close> returns the milliseconds slept (\<open>None\<close> when the call did not block) and the
  queue after \<open>emplace_back\<close>. \<open>q\<close> is the queue under the first lock (line 108). A
  blocked call releases the lock, so the consumer can swap the queue away before the
  next two reads: \<open>unlocked_size\<close> is what \<open>queue.size()\<close> returns at line 111, and
  \<open>q_relocked\<close> is the queue found when the lock is taken again at line 119. When no
  consumer step falls in between, \<open>unlocked_size = length q\<close> and \<open>q_relocked = q\<close>. A
  call that does not block keeps the lock and appends to \<open>q\<close>.
\<close>

definition queue :: "'e list \<Rightarrow> nat \<Rightarrow> 'e list \<Rightarrow> 'e \<Rightarrow> nat \<Rightarrow> int option \<times> 'e list" where
  "queue q unlocked_size q_relocked e queue_size =
     (if length q > queue_size
      then (Some (sleep_time_of unlocked_size), q_relocked @ [e])
      else (None, q @ [e]))"

section \<open>The consumer thread: \<open>consume_blocks\<close> (lines 146-193)\<close>

datatype log_msg =
    Wlog_queue_size nat
  | Ilog_draining_queue nat
  | Ilog_shutdown_gracefully

text \<open>
  Where the consumer thread stands inside the body of \<open>while (true)\<close>:
  \<open>Waiting\<close> before it takes the lock and tests the condition of the inner loop
  (lines 149-151);
  \<open>About_to_wait\<close> after that test has found the queue empty and \<open>done\<close> unset,
  holding the lock, before the call of \<open>condition.wait\<close> (line 152);
  \<open>Blocked\<close> inside \<open>condition.wait\<close>, the lock released;
  \<open>Captured n\<close> after the capture and \<open>lock.unlock()\<close>, before the log (lines 166-171),
  with \<open>n\<close> the captured \<open>transaction_metadata_size\<close>;
  \<open>Processing n\<close> in the loop over the process queue and at the exit test (lines 174-183);
  \<open>Terminated\<close> after the \<open>break\<close> and the shutdown log (line 185).
\<close>

datatype consumer_pc = Waiting | About_to_wait | Blocked | Captured nat | Processing nat | Terminated

record ('e, 'db) plugin_state =
  transaction_metadata_queue :: "'e list"
  transaction_metadata_process_queue :: "'e list"
  done_flag :: bool
  db :: 'db
  log :: "log_msg list"
  consumer :: consumer_pc

text \<open>
  One atomic step of the consumer. \<open>None\<close> means the thread cannot move: it is blocked in
  \<open>condition.wait\<close> until a notification arrives, or it has left the function. The test
  of \<open>done\<close> and the entry into the wait are two steps: \<open>done\<close> is an atomic flag that
  the destructor sets without the lock, so it can change between them. A thread that is
  woken tests the condition of the inner loop again. The parameter \<open>proc\<close> is
  \<open>process_accepted_transaction\<close> acting on the store. The test
  \<open>transaction_metadata_size > queue_size * 0.75\<close> compares doubles; \<open>queue_size\<close> comes
  from a 32-bit option, so the product is exact and the test is \<open>4 * n > 3 * queue_size\<close>.
\<close>

definition consume_step ::
  "('e \<Rightarrow> 'db \<Rightarrow> 'db) \<Rightarrow> nat \<Rightarrow> ('e, 'db) plugin_state \<Rightarrow> ('e, 'db) plugin_state option" where
  "consume_step proc queue_size s =
     (case consumer s of
        Waiting \<Rightarrow>
          if transaction_metadata_queue s = [] \<and> \<not> done_flag s
          then Some (s\<lparr>consumer := About_to_wait\<rparr>)
          else
            let transaction_metadata_size = length (transaction_metadata_queue s) in
            Some ((if transaction_metadata_size > 0
                   then s\<lparr>transaction_metadata_process_queue := transaction_metadata_queue s,
                          transaction_metadata_queue := []\<rparr>
                   else s)\<lparr>consumer := Captured transaction_metadata_size\<rparr>)
      | About_to_wait \<Rightarrow> Some (s\<lparr>consumer := Blocked\<rparr>)
      | Blocked \<Rightarrow> None
      | Captured transaction_metadata_size \<Rightarrow>
          Some (s\<lparr>log := log s @
                     (if 4 * transaction_metadata_size > 3 * queue_size
                      then [Wlog_queue_size transaction_metadata_size]
                      else if done_flag s then [Ilog_draining_queue transaction_metadata_size]
                      else []),
                  consumer := Processing transaction_metadata_size\<rparr>)
      | Processing transaction_metadata_size \<Rightarrow>
          (case transaction_metadata_process_queue s of
             t # rest \<Rightarrow>
               Some (s\<lparr>db := proc t (db s), transaction_metadata_process_queue := rest\<rparr>)
           | [] \<Rightarrow>
               if transaction_metadata_size = 0 \<and> done_flag s
               then Some (s\<lparr>log := log s @ [Ilog_shutdown_gracefully], consumer := Terminated\<rparr>)
               else Some (s\<lparr>consumer := Waiting\<rparr>))
      | Terminated \<Rightarrow> None)"

text \<open>\<open>condition.notify_one()\<close>: a thread inside the wait is woken; otherwise nothing happens.\<close>

definition notify_one :: "('e, 'db) plugin_state \<Rightarrow> ('e, 'db) plugin_state" where
  "notify_one s = (if consumer s = Blocked then s\<lparr>consumer := Waiting\<rparr> else s)"

text \<open>
  The destructor (lines 493-494) with no consumer step between its two statements:
  \<open>done = true\<close>, then \<open>condition.notify_one()\<close>, neither under the lock.
\<close>

definition destructor :: "('e, 'db) plugin_state \<Rightarrow> ('e, 'db) plugin_state" where
  "destructor s = notify_one (s\<lparr>done_flag := True\<rparr>)"

text \<open>
  The moves of the whole plugin after \<open>plugin_startup\<close>.
  \<^item> \<open>Enqueue e\<close>: the locked \<open>emplace_back\<close> of \<open>queue\<close> and the notification after it
    (lines 121-123), for \<open>accepted_transaction\<close> with \<open>startup = false\<close>. It needs the
    lock, which the consumer holds in \<open>About_to_wait\<close>. What a blocked call does before
    (lines 108-118) reads the queue and notifies; the queue is not empty then, so no thread
    is inside the wait and the shared state is unchanged.
  \<^item> \<open>Shutdown\<close>: the destructor's \<open>done = true\<close> (line 493).
  \<^item> \<open>Notify\<close>: the destructor's \<open>condition.notify_one()\<close> (line 494), or a spurious
    wake-up.
  \<^item> \<open>Consume\<close>: a step of the consumer.
\<close>

datatype 'e move = Enqueue 'e | Shutdown | Notify | Consume

definition step ::
  "('e \<Rightarrow> 'db \<Rightarrow> 'db) \<Rightarrow> nat \<Rightarrow> 'e move \<Rightarrow> ('e, 'db) plugin_state \<Rightarrow> ('e, 'db) plugin_state option" where
  "step proc queue_size m s =
     (case m of
        Enqueue e \<Rightarrow>
          if consumer s = About_to_wait then None
          else Some (notify_one
                 (s\<lparr>transaction_metadata_queue :=
                      snd (queue (transaction_metadata_queue s)
                             (length (transaction_metadata_queue s))
                             (transaction_metadata_queue s) e queue_size)\<rparr>))
      | Shutdown \<Rightarrow> Some (s\<lparr>done_flag := True\<rparr>)
      | Notify \<Rightarrow> Some (notify_one s)
      | Consume \<Rightarrow> consume_step proc queue_size s)"

fun run ::
  "('e \<Rightarrow> 'db \<Rightarrow> 'db) \<Rightarrow> nat \<Rightarrow> 'e move list \<Rightarrow> ('e, 'db) plugin_state \<Rightarrow> ('e, 'db) plugin_state option" where
  "run proc queue_size [] s = Some s"
| "run proc queue_size (m # ms) s =
     (case step proc queue_size m s of None \<Rightarrow> None | Some s' \<Rightarrow> run proc queue_size ms s')"

text \<open>The consumer running alone for at most \<open>n\<close> steps; it stays where it cannot move.\<close>

fun consume_blocks :: "('e \<Rightarrow> 'db \<Rightarrow> 'db) \<Rightarrow> nat \<Rightarrow> nat \<Rightarrow> ('e, 'db) plugin_state \<Rightarrow> ('e, 'db) plugin_state" where
  "consume_blocks proc queue_size 0 s = s"
| "consume_blocks proc queue_size (Suc n) s =
     (case consume_step proc queue_size s of None \<Rightarrow> s | Some s' \<Rightarrow> consume_blocks proc queue_size n s')"

text \<open>The state in which \<open>plugin_startup\<close> starts the consumer thread.\<close>

definition started :: "'db \<Rightarrow> ('e, 'db) plugin_state" where
  "started d = \<lparr>transaction_metadata_queue = [], transaction_metadata_process_queue = [],
                done_flag = False, db = d, log = [], consumer = Waiting\<rparr>"

text \<open>The events a schedule submits, in order.\<close>

fun enqueued :: "'e move list \<Rightarrow> 'e list" where
  "enqueued [] = []"
| "enqueued (Enqueue e # ms) = e # enqueued ms"
| "enqueued (m # ms) = enqueued ms"

text \<open>Recording each call of the processor: the store is the list of events processed so far.\<close>

definition record_call :: "'e \<Rightarrow> 'e list \<Rightarrow> 'e list" where
  "record_call e trace = trace @ [e]"

text \<open>
  What holds of the consumer wherever it stands. At the top of the loop the process queue
  of the previous pass has been emptied by the loop of lines 174-178 (the capture of line
  158 overwrites it); it waits only on an empty queue, and every append wakes it; a pass
  that captured nothing was let through the wait by \<open>done\<close>; the thread has left only
  after \<open>done\<close>.
\<close>

definition consumer_ok :: "('e, 'db) plugin_state \<Rightarrow> bool" where
  "consumer_ok s =
     (case consumer s of
        Waiting \<Rightarrow> transaction_metadata_process_queue s = []
      | About_to_wait \<Rightarrow>
          transaction_metadata_process_queue s = [] \<and> transaction_metadata_queue s = []
      | Blocked \<Rightarrow>
          transaction_metadata_process_queue s = [] \<and> transaction_metadata_queue s = []
      | Captured n \<Rightarrow> 0 < n \<or> done_flag s
      | Processing n \<Rightarrow> 0 < n \<or> done_flag s
      | Terminated \<Rightarrow> done_flag s)"

section \<open>Chain data and the libraries the plugin calls\<close>

type_synonym account_name = string
type_synonym action_name = string
type_synonym bytes = string

record permission_level =
  actor :: account_name
  permission :: string

record action =
  account :: account_name
  name :: action_name
  authorization :: "permission_level list"
  data :: bytes

text \<open>Of \<open>transaction_metadata\<close> the plugin reads \<open>t->id\<close> and \<open>t->trx.actions\<close>.\<close>

record transaction_metadata =
  trx_id :: string
  actions :: "action list"

text \<open>The payloads \<open>chain::newaccount\<close> and \<open>chain::setabi\<close>, with the fields the plugin reads.\<close>

record newaccount_args =
  newaccount_creator :: account_name
  newaccount_name :: account_name

record setabi_args =
  setabi_account :: account_name
  setabi_abi :: bytes

text \<open>
  What a \<open>catch\<close> clause can tell apart: \<open>fc::exception\<close>, any other \<open>std::exception\<close>
  (the BSON and driver exceptions), and anything else.
\<close>

datatype exn = Fc_exception | Std_exception | Other_exception

text \<open>
  The serialisation libraries (fc, abi_serializer, bsoncxx) and the chain constant
  \<open>chain::config::system_account_name\<close> are not part of this repository; the model takes
  them as a parameter. \<open>'abi\<close> is \<open>abi_def\<close>, \<open>'json\<close> a BSON value built from JSON text.
  \<^item> \<open>data_as_newaccount\<close>, \<open>data_as_setabi\<close>: \<open>act.data_as<T>()\<close>;
  \<^item> \<open>unpack_abi_def\<close>: \<open>fc::raw::unpack<chain::abi_def>\<close>;
  \<^item> \<open>newaccount_to_bson\<close>, \<open>abi_def_to_bson\<close>: \<open>fc::json::to_string\<close> then
    \<open>bsoncxx::from_json\<close>;
  \<^item> \<open>bson_to_abi_def\<close>: \<open>fc::json::from_string(bsoncxx::to_json(...)).as<abi_def>()\<close>;
  \<^item> \<open>empty_abi_def\<close>: the default-constructed \<open>abi_def\<close>;
  \<^item> \<open>binary_to_bson\<close>: \<open>set_abi\<close>, \<open>get_action_type\<close>, \<open>binary_to_variant\<close>,
    \<open>to_string\<close> and \<open>from_json\<close> of lines 341-346;
  \<^item> \<open>to_hex\<close>: \<open>fc::variant(act.data).as_string()\<close>.
\<close>

record ('abi, 'json) chain_lib =
  system_account_name :: account_name
  data_as_newaccount :: "bytes \<Rightarrow> exn + newaccount_args"
  data_as_setabi :: "bytes \<Rightarrow> exn + setabi_args"
  unpack_abi_def :: "bytes \<Rightarrow> exn + 'abi"
  newaccount_to_bson :: "newaccount_args \<Rightarrow> exn + 'json"
  abi_def_to_bson :: "'abi \<Rightarrow> exn + 'json"
  bson_to_abi_def :: "'json \<Rightarrow> exn + 'abi"
  empty_abi_def :: 'abi
  binary_to_bson :: "'abi \<Rightarrow> action_name \<Rightarrow> bytes \<Rightarrow> exn + 'json"
  to_hex :: "bytes \<Rightarrow> string"

definition newaccount :: action_name where
  "newaccount = ''newaccount''"

definition setabi :: action_name where
  "setabi = ''setabi''"

section \<open>The store\<close>

text \<open>
  The \<open>accounts\<close> collection holds documents with the keys \<open>_id\<close>, \<open>name\<close>,
  \<open>createdAt\<close> and, once set, \<open>abi\<close> and \<open>updatedAt\<close>. The plugin creates no index, so
  nothing in the store rejects a second document with a name already present. The
  collection is a list in insertion order, and every operation of the driver succeeds.
\<close>

record 'json account_doc =
  oid :: nat
  acc_name :: account_name
  createdAt :: nat
  abi :: "'json option"
  updatedAt :: "nat option"

datatype 'json bson =
    B_int32 int
  | B_bool bool
  | B_utf8 string
  | B_array "'json bson list"
  | B_document "(string \<times> 'json bson) list"
  | B_json 'json

type_synonym 'json document = "(string \<times> 'json bson) list"

record 'json store =
  accounts_col :: "'json account_doc list"
  filter_col :: "'json document list"

text \<open>\<open>find_account\<close> (lines 197-201): \<open>find_one\<close> by name, the first match.\<close>

definition find_account :: "'json account_doc list \<Rightarrow> account_name \<Rightarrow> 'json account_doc option" where
  "find_account accounts n = List.find (\<lambda>d. acc_name d = n) accounts"

text \<open>The driver gives every inserted document an \<open>_id\<close> no other document has.\<close>

definition fresh_oid :: "'json account_doc list \<Rightarrow> nat" where
  "fresh_oid accounts = fold (\<lambda>d m. max (Suc (oid d)) m) accounts 0"

definition insert_one :: "'json account_doc list \<Rightarrow> account_name \<Rightarrow> nat \<Rightarrow> 'json account_doc list" where
  "insert_one accounts n now =
     accounts @ [\<lparr>oid = fresh_oid accounts, acc_name = n, createdAt = now,
                  abi = None, updatedAt = None\<rparr>]"

text \<open>\<open>update_one\<close> by \<open>_id\<close> with \<open>$set\<close> of \<open>abi\<close> and \<open>updatedAt\<close> (lines 279-283).\<close>

fun update_one :: "nat \<Rightarrow> 'json \<Rightarrow> nat \<Rightarrow> 'json account_doc list \<Rightarrow> 'json account_doc list" where
  "update_one i j now [] = []"
| "update_one i j now (d # ds) =
     (if oid d = i then d\<lparr>abi := Some j, updatedAt := Some now\<rparr> # ds
      else d # update_one i j now ds)"

section \<open>The account registry: \<open>update_account\<close> (lines 242-295) and \<open>init\<close> (lines 513-533)\<close>

text \<open>A \<open>catch (fc::exception&)\<close> clause: it swallows that exception and lets any other pass.\<close>

definition catch_fc :: "exn \<Rightarrow> exn option" where
  "catch_fc e = (if e = Fc_exception then None else Some e)"

text \<open>
  \<open>update_account\<close> returns the exception that leaves it, if any, and the collection as
  written up to that point. \<open>now\<close> is the clock reading.
\<close>

definition update_account ::
  "('abi, 'json) chain_lib \<Rightarrow> nat \<Rightarrow> 'json account_doc list \<Rightarrow> action \<Rightarrow>
   exn option \<times> 'json account_doc list" where
  "update_account L now accounts act =
     (if account act \<noteq> system_account_name L then (None, accounts)
      else if name act = newaccount then
        (case data_as_newaccount L (data act) of
           Inl e \<Rightarrow> (catch_fc e, accounts)
         | Inr na \<Rightarrow> (None, insert_one accounts (newaccount_name na) now))
      else if name act = setabi then
        (case data_as_setabi L (data act) of
           Inl e \<Rightarrow> (catch_fc e, accounts)
         | Inr sa \<Rightarrow>
             let (from_account, accounts) =
                   (case find_account accounts (setabi_account sa) of
                      None \<Rightarrow>
                        let accounts = insert_one accounts (setabi_account sa) now
                        in (find_account accounts (setabi_account sa), accounts)
                    | Some d \<Rightarrow> (Some d, accounts))
             in (case from_account of
                   None \<Rightarrow> (None, accounts)
                 | Some d \<Rightarrow>
                     (case unpack_abi_def L (setabi_abi sa) of
                        Inl e \<Rightarrow> (catch_fc e, accounts)
                      | Inr abi_def \<Rightarrow>
                          (case abi_def_to_bson L abi_def of
                             Inl e \<Rightarrow> (catch_fc e, accounts)
                           | Inr j \<Rightarrow> (None, update_one (oid d) j now accounts)))))
      else (None, accounts))"

definition init :: "('abi, 'json) chain_lib \<Rightarrow> nat \<Rightarrow> 'json store \<Rightarrow> 'json store" where
  "init L now st =
     (if length (accounts_col st) = 0
      then st\<lparr>accounts_col := insert_one (accounts_col st) (system_account_name L) now\<rparr>
      else st)"

section \<open>The action decoder: \<open>add_data\<close> (lines 297-368)\<close>

text \<open>Line 367, reached whenever no branch above it has returned.\<close>

definition hex_data :: "('abi, 'json) chain_lib \<Rightarrow> 'json document \<Rightarrow> action \<Rightarrow> 'json document" where
  "hex_data L act_doc act = act_doc @ [(''hex_data'', B_utf8 (to_hex L (data act)))]"

text \<open>
  Lines 328-353: the decode with the schema stored for \<open>act.account\<close>. A stored schema
  that does not convert leaves \<open>abi\<close> default-constructed (the \<open>catch (...)\<close> of line 335);
  any exception of the decode ends in one of the handlers of lines 349-365 and so at
  line 367.
\<close>

definition stored_abi :: "('abi, 'json) chain_lib \<Rightarrow> 'json account_doc \<Rightarrow> 'abi" where
  "stored_abi L from_account =
     (case abi from_account of
        None \<Rightarrow> empty_abi_def L
      | Some j \<Rightarrow> (case bson_to_abi_def L j of Inl e \<Rightarrow> empty_abi_def L | Inr a \<Rightarrow> a))"

definition decode_with_account_abi ::
  "('abi, 'json) chain_lib \<Rightarrow> 'json document \<Rightarrow> 'json account_doc list \<Rightarrow> action \<Rightarrow> 'json document" where
  "decode_with_account_abi L act_doc accounts act =
     (case find_account accounts (account act) of
        None \<Rightarrow> hex_data L act_doc act
      | Some from_account \<Rightarrow>
          (case binary_to_bson L (stored_abi L from_account) (name act) (data act) of
             Inl e \<Rightarrow> hex_data L act_doc act
           | Inr v \<Rightarrow> act_doc @ [(''data'', B_json v)]))"

text \<open>
  The first tier. A failing \<open>data_as\<close> is outside the inner \<open>try\<close> and goes to the outer
  handlers, hence to line 367. For \<open>newaccount\<close> the inner \<open>catch (...)\<close> takes every
  exception and control falls out of the \<open>if\<close> to line 328. For \<open>setabi\<close> the inner
  handler takes \<open>fc::exception\<close> only: that one falls to line 328, any other goes to the
  outer handlers and line 367.
\<close>

definition add_data ::
  "('abi, 'json) chain_lib \<Rightarrow> 'json document \<Rightarrow> 'json account_doc list \<Rightarrow> action \<Rightarrow> 'json document" where
  "add_data L act_doc accounts act =
     (if account act = system_account_name L \<and> name act = newaccount then
        (case data_as_newaccount L (data act) of
           Inl e \<Rightarrow> hex_data L act_doc act
         | Inr na \<Rightarrow>
             (case newaccount_to_bson L na of
                Inr v \<Rightarrow> act_doc @ [(''data'', B_json v)]
              | Inl e \<Rightarrow> decode_with_account_abi L act_doc accounts act))
      else if account act = system_account_name L \<and> name act = setabi then
        (case data_as_setabi L (data act) of
           Inl e \<Rightarrow> hex_data L act_doc act
         | Inr sa \<Rightarrow>
             (case unpack_abi_def L (setabi_abi sa) of
                Inl e \<Rightarrow>
                  (if e = Fc_exception then decode_with_account_abi L act_doc accounts act
                   else hex_data L act_doc act)
              | Inr abi_def \<Rightarrow>
                  (case abi_def_to_bson L abi_def of
                     Inl e \<Rightarrow>
                       (if e = Fc_exception then decode_with_account_abi L act_doc accounts act
                        else hex_data L act_doc act)
                   | Inr j \<Rightarrow>
                       act_doc @
                       [(''data'', B_document [(''account'', B_utf8 (setabi_account sa)),
                                               (''abi_def'', B_json j)])])))
      else decode_with_account_abi L act_doc accounts act)"

section \<open>The decoding tiers, stated apart from \<open>add_data\<close>\<close>

text \<open>
  What a tier yields: a structured payload, a failure that lets the next tier try, or a
  failure after which only the raw fallback is left.
\<close>

datatype 'json tier_result = Decoded "'json bson" | Fall_through | To_hex

text \<open>
  The first tier applies to \<open>newaccount\<close> and \<open>setabi\<close> of the system account and succeeds
  when the payload unpacks with the fixed layout and renders (for \<open>setabi\<close>: when the
  embedded schema unpacks and renders too). A payload that does not unpack leaves only
  the raw fallback; so does a failure of the \<open>setabi\<close> rendering that is not an
  \<open>fc::exception\<close>. The other failures, and every other action, go on to the second tier.
\<close>

definition special_case_tier :: "('abi, 'json) chain_lib \<Rightarrow> action \<Rightarrow> 'json tier_result" where
  "special_case_tier L act =
     (if account act \<noteq> system_account_name L then Fall_through
      else if name act = newaccount then
        (case data_as_newaccount L (data act) of
           Inl e \<Rightarrow> To_hex
         | Inr na \<Rightarrow>
             (case newaccount_to_bson L na of
                Inl e \<Rightarrow> Fall_through
              | Inr v \<Rightarrow> Decoded (B_json v)))
      else if name act = setabi then
        (case data_as_setabi L (data act) of
           Inl e \<Rightarrow> To_hex
         | Inr sa \<Rightarrow>
             (case unpack_abi_def L (setabi_abi sa) of
                Inl e \<Rightarrow> (if e = Fc_exception then Fall_through else To_hex)
              | Inr a \<Rightarrow>
                  (case abi_def_to_bson L a of
                     Inl e \<Rightarrow> (if e = Fc_exception then Fall_through else To_hex)
                   | Inr j \<Rightarrow>
                       Decoded (B_document [(''account'', B_utf8 (setabi_account sa)),
                                            (''abi_def'', B_json j)]))))
      else Fall_through)"

text \<open>
  The second tier succeeds when the acting account has a record and the payload decodes
  with the schema stored there (the default schema when none is stored or it is malformed).
\<close>

definition schema_tier ::
  "('abi, 'json) chain_lib \<Rightarrow> 'json account_doc list \<Rightarrow> action \<Rightarrow> 'json tier_result" where
  "schema_tier L accounts act =
     (case find_account accounts (account act) of
        None \<Rightarrow> To_hex
      | Some from_account \<Rightarrow>
          (case binary_to_bson L (stored_abi L from_account) (name act) (data act) of
             Inl e \<Rightarrow> To_hex
           | Inr v \<Rightarrow> Decoded (B_json v)))"

text \<open>The tiers in order, the first success wins; \<open>None\<close> when no tier succeeds.\<close>

definition structured_payload ::
  "('abi, 'json) chain_lib \<Rightarrow> 'json account_doc list \<Rightarrow> action \<Rightarrow> 'json bson option" where
  "structured_payload L accounts act =
     (case special_case_tier L act of
        Decoded v \<Rightarrow> Some v
      | To_hex \<Rightarrow> None
      | Fall_through \<Rightarrow>
          (case schema_tier L accounts act of Decoded v \<Rightarrow> Some v | Fall_through \<Rightarrow> None | To_hex \<Rightarrow> None))"

section \<open>The transaction processor (lines 372-480) and its configuration (lines 583-595)\<close>

record config =
  start_block_num :: nat
  start_block_reached :: bool
  filter_contract :: "string list"

text \<open>
  \<open>plugin_initialize\<close>, the part that sets the fields above: the members start as
  declared in the class (0, \<open>false\<close>, empty), and \<open>start_block_reached\<close> is set when the
  configured start is 0. No other statement of the plugin assigns \<open>start_block_reached\<close>.
\<close>

definition plugin_initialize :: "nat \<Rightarrow> string list \<Rightarrow> config" where
  "plugin_initialize block_start filter_contracts =
     (let my = \<lparr>start_block_num = 0, start_block_reached = False, filter_contract = []\<rparr>;
          my = my\<lparr>start_block_num := block_start\<rparr>;
          my = (if start_block_num my = 0 then my\<lparr>start_block_reached := True\<rparr> else my)
      in my\<lparr>filter_contract := filter_contracts\<rparr>)"

text \<open>The variables of \<open>_process_accepted_transaction\<close> that the lambda \<open>process_action\<close> captures.\<close>

record 'json trx_locals =
  act_num :: int
  action_array :: "'json document list"
  bulk_filter :: "'json document list"
  actions_to_write :: bool
  filter_to_write :: bool

text \<open>Lines 417-429: the fields appended to a new action document.\<close>

definition act_doc_header :: "int \<Rightarrow> string \<Rightarrow> bool \<Rightarrow> action \<Rightarrow> 'json document" where
  "act_doc_header n trx_id_str cfa act =
     [(''action_num'', B_int32 n), (''trx_id'', B_utf8 trx_id_str), (''cfa'', B_bool cfa),
      (''account'', B_utf8 (account act)), (''name'', B_utf8 (name act)),
      (''authorization'',
         B_array (map (\<lambda>auth. B_document [(''actor'', B_utf8 (actor auth)),
                                           (''permission'', B_utf8 (permission auth))])
                      (authorization act)))]"

text \<open>
  The lambda \<open>process_action\<close> (lines 414-453). Whatever leaves \<open>update_account\<close> is
  caught and logged at line 433; the collection keeps what was written. The clock is read
  anew in every call of \<open>update_account\<close>; the readings within one transaction are taken
  as the one value \<open>now\<close>.
\<close>

definition process_action ::
  "('abi, 'json) chain_lib \<Rightarrow> config \<Rightarrow> nat \<Rightarrow> string \<Rightarrow> action \<Rightarrow> bool \<Rightarrow>
   'json account_doc list \<times> 'json trx_locals \<Rightarrow> 'json account_doc list \<times> 'json trx_locals" where
  "process_action L cfg now trx_id_str act cfa st =
     (let (accounts, l) = st;
          act_doc = (if start_block_reached cfg
                     then act_doc_header (act_num l) trx_id_str cfa act else []);
          accounts = snd (update_account L now accounts act);
          l = (if start_block_reached cfg then
                 let act_doc = add_data L act_doc accounts act;
                     l = l\<lparr>action_array := action_array l @ [act_doc]\<rparr>;
                     l = (if account act \<in> set (filter_contract cfg)
                          then l\<lparr>bulk_filter := bulk_filter l @ [act_doc], filter_to_write := True\<rparr>
                          else l)
                 in l\<lparr>actions_to_write := True\<rparr>
               else l)
      in (accounts, l\<lparr>act_num := act_num l + 1\<rparr>))"

text \<open>
  \<open>_process_accepted_transaction\<close>. The result is the local \<open>trans_doc\<close>, which the
  function builds and lets go out of scope, and the store. The unordered bulk insert
  appends its documents in the order they were added.
\<close>

definition u_process_accepted_transaction ::
  "('abi, 'json) chain_lib \<Rightarrow> config \<Rightarrow> nat \<Rightarrow> transaction_metadata \<Rightarrow> 'json store \<Rightarrow>
   'json document \<times> 'json store" where
  "u_process_accepted_transaction L cfg now t st =
     (let l0 = \<lparr>act_num = 0, action_array = [], bulk_filter = [],
                actions_to_write = False, filter_to_write = False\<rparr>;
          (accounts, l) =
             fold (\<lambda>act. process_action L cfg now (trx_id t) act False) (actions t)
                  (accounts_col st, l0);
          trans_doc = (if actions t \<noteq> []
                       then [(''actions'', B_array (map B_document (action_array l)))]
                       else []);
          st = st\<lparr>accounts_col := accounts\<rparr>
      in (trans_doc,
          if start_block_reached cfg \<and> actions_to_write l \<and> filter_to_write l
          then st\<lparr>filter_col := filter_col st @ bulk_filter l\<rparr>
          else st))"

text \<open>\<open>process_accepted_transaction\<close> (lines 372-383): the call, inside handlers that log.\<close>

definition process_accepted_transaction ::
  "('abi, 'json) chain_lib \<Rightarrow> config \<Rightarrow> nat \<Rightarrow> transaction_metadata \<Rightarrow> 'json store \<Rightarrow> 'json store" where
  "process_accepted_transaction L cfg now t st = snd (u_process_accepted_transaction L cfg now t st)"

text \<open>The documents of the action array that a filter set selects.\<close>

definition doc_account :: "'json document \<Rightarrow> 'json bson option" where
  "doc_account d = map_of d ''account''"

definition has_field :: "string \<Rightarrow> 'json document \<Rightarrow> bool" where
  "has_field k d = (k \<in> fst ` set d)"

text \<open>The events delivered one after the other, each with the clock reading of its processing.\<close>

definition process_all ::
  "('abi, 'json) chain_lib \<Rightarrow> config \<Rightarrow> (nat \<times> transaction_metadata) list \<Rightarrow> 'json store \<Rightarrow> 'json store" where
  "process_all L cfg evs st = fold (\<lambda>(now, t). process_accepted_transaction L cfg now t) evs st"

section \<open>What the processor computes, stated apart from its loop\<close>

text \<open>
  The action documents of a transaction in order, each decoded against the registry as
  \<open>update_account\<close> has left it for that action; the registry after all actions; and the
  documents whose action's account is in the filter set.
\<close>

fun action_docs ::
  "('abi, 'json) chain_lib \<Rightarrow> nat \<Rightarrow> string \<Rightarrow> int \<Rightarrow> 'json account_doc list \<Rightarrow> action list \<Rightarrow>
   'json document list" where
  "action_docs L now trx_id_str n accounts [] = []"
| "action_docs L now trx_id_str n accounts (act # acts) =
     (let accounts = snd (update_account L now accounts act)
      in add_data L (act_doc_header n trx_id_str False act) accounts act #
         action_docs L now trx_id_str (n + 1) accounts acts)"

definition registry_after ::
  "('abi, 'json) chain_lib \<Rightarrow> nat \<Rightarrow> action list \<Rightarrow> 'json account_doc list \<Rightarrow> 'json account_doc list" where
  "registry_after L now acts accounts = fold (\<lambda>act a. snd (update_account L now a act)) acts accounts"

definition selected :: "config \<Rightarrow> action list \<Rightarrow> 'json document list \<Rightarrow> 'json document list" where
  "selected cfg acts docs =
     map snd (filter (\<lambda>(act, d). account act \<in> set (filter_contract cfg)) (zip acts docs))"

section \<open>A concrete instance of the libraries, for evaluating the model\<close>

text \<open>
  A small wire format: a \<open>newaccount\<close> payload is the new name (not empty); a \<open>setabi\<close>
  payload is the account, a colon, and the schema bytes; schema bytes unpack when they
  start with \<open>abi\<close>; the default schema declares no action, so no payload decodes with it.
\<close>

definition demo_lib :: "(string, string) chain_lib" where
  "demo_lib =
     \<lparr>system_account_name = ''eosio'',
      data_as_newaccount =
        (\<lambda>b. if b = [] then Inl Fc_exception
              else Inr \<lparr>newaccount_creator = ''eosio'', newaccount_name = b\<rparr>),
      data_as_setabi =
        (\<lambda>b. if CHR '':'' \<in> set b
              then Inr \<lparr>setabi_account = takeWhile (\<lambda>c. c \<noteq> CHR '':'') b,
                        setabi_abi = tl (dropWhile (\<lambda>c. c \<noteq> CHR '':'') b)\<rparr>
              else Inl Fc_exception),
      unpack_abi_def = (\<lambda>b. if take 3 b = ''abi'' then Inr b else Inl Fc_exception),
      newaccount_to_bson = (\<lambda>na. Inr (newaccount_creator na @ ''/'' @ newaccount_name na)),
      abi_def_to_bson = Inr,
      bson_to_abi_def = Inr,
      empty_abi_def = [],
      binary_to_bson = (\<lambda>a n d. if a = [] then Inl Fc_exception else Inr (n @ ''='' @ d)),
      to_hex = (\<lambda>b. b)\<rparr>"

text \<open>Sample inputs.\<close>

definition empty_store :: "string store" where
  "empty_store = \<lparr>accounts_col = [], filter_col = []\<rparr>"

definition alice_transfer :: action where
  "alice_transfer = \<lparr>account = ''alice'', name = ''transfer'',
      authorization = [\<lparr>actor = ''alice'', permission = ''active''\<rparr>], data = ''x''\<rparr>"

definition bob_transfer :: action where
  "bob_transfer = \<lparr>account = ''bob'', name = ''transfer'',
      authorization = [\<lparr>actor = ''bob'', permission = ''active''\<rparr>], data = ''y''\<rparr>"

definition newaccount_alice :: action where
  "newaccount_alice = \<lparr>account = ''eosio'', name = ''newaccount'',
      authorization = [\<lparr>actor = ''eosio'', permission = ''active''\<rparr>], data = ''alice''\<rparr>"

definition setabi_bob_junk :: action where
  "setabi_bob_junk = \<lparr>account = ''eosio'', name = ''setabi'',
      authorization = [\<lparr>actor = ''bob'', permission = ''active''\<rparr>], data = ''bob:junk''\<rparr>"

definition setabi_bob_abi1 :: action where
  "setabi_bob_abi1 = \<lparr>account = ''eosio'', name = ''setabi'',
      authorization = [\<lparr>actor = ''bob'', permission = ''active''\<rparr>], data = ''bob:abi1''\<rparr>"

section \<open>Properties of the queue\<close>

lemma queue_appends: "snd (queue q (length q) q e queue_size) = q @ [e]"
  by (simp add: queue_def)

lemma sleep_time_of_pos: "0 < n \<Longrightarrow> sleep_time_of n = 200"
  by (simp add: sleep_time_of_def)

lemma sleep_time_of_zero: "sleep_time_of 0 = 0"
  by (simp add: sleep_time_of_def)

lemma queue_blocked_sleeps_200:
  "length q > queue_size \<Longrightarrow> fst (queue q (length q) q e queue_size) = Some 200"
  by (auto simp: queue_def sleep_time_of_def)

text \<open>
  Whatever the second read returns, a blocked call sleeps 200 ms or, after a swap that
  left the queue empty, 0 ms: the delay depends on nothing an earlier call did.
\<close>

lemma queue_blocked_sleep_values:
  "length q > queue_size \<Longrightarrow>
   fst (queue q n q' e queue_size) = Some (if n = 0 then 0 else 200)"
  by (simp add: queue_def sleep_time_of_def)

text \<open>
  Claim C3. The claim says that the delay of a blocked enqueue grows from one blocked call
  to the next while the queue keeps growing. With \<open>queue_size = 1\<close> and no consumer step
  in between, a first blocked call on a queue of length 2 and a second on the grown queue
  of length 3 both sleep 200 ms; the element is appended both times.
\<close>

theorem queue_delay_does_not_adapt:
  "(let (d1, q1) = queue [1::nat, 2] 2 [1, 2] 3 1;
        (d2, q2) = queue q1 (length q1) q1 4 1
    in d1 = Some 200 \<and> d2 = Some 200 \<and> length q1 < length q2 \<and> q2 = [1, 2, 3, 4])"
  by (simp add: queue_def sleep_time_of_def)

section \<open>Properties of the consumer\<close>

lemma fold_record_call: "fold record_call xs tr = tr @ xs"
  by (induction xs arbitrary: tr) (simp_all add: record_call_def)

lemma consume_step_inv:
  assumes "consumer_ok s" "consume_step proc queue_size s = Some s'"
  shows "consumer_ok s' \<and>
         fold proc (transaction_metadata_process_queue s' @ transaction_metadata_queue s') (db s') =
         fold proc (transaction_metadata_process_queue s @ transaction_metadata_queue s) (db s)"
  using assms
  by (auto simp: consume_step_def consumer_ok_def Let_def
           split: consumer_pc.splits if_splits list.splits)

lemma step_inv:
  assumes "consumer_ok s" "step proc queue_size m s = Some s'"
  shows "consumer_ok s' \<and>
         fold proc (transaction_metadata_process_queue s' @ transaction_metadata_queue s') (db s') =
         fold proc (transaction_metadata_process_queue s @ transaction_metadata_queue s @ enqueued [m]) (db s)"
proof (cases m)
  case (Enqueue e)
  with assms show ?thesis
    by (auto simp: step_def queue_def notify_one_def consumer_ok_def
          split: consumer_pc.splits if_splits)
next
  case Notify
  with assms show ?thesis
    by (auto simp: step_def notify_one_def consumer_ok_def split: consumer_pc.splits if_splits)
next
  case Shutdown
  with assms show ?thesis
    by (auto simp: step_def consumer_ok_def split: consumer_pc.splits)
next
  case Consume
  with assms consume_step_inv[of s proc queue_size s'] show ?thesis
    by (simp add: step_def)
qed

lemma enqueued_Cons: "enqueued (m # ms) = enqueued [m] @ enqueued ms"
  by (cases m) simp_all

lemma run_inv:
  assumes "consumer_ok s" "run proc queue_size ms s = Some s'"
  shows "consumer_ok s' \<and>
         fold proc (transaction_metadata_process_queue s' @ transaction_metadata_queue s') (db s') =
         fold proc (transaction_metadata_process_queue s @ transaction_metadata_queue s @ enqueued ms) (db s)"
  using assms
proof (induction ms arbitrary: s)
  case Nil
  then show ?case by simp
next
  case (Cons m ms)
  from Cons.prems obtain s1 where s1: "step proc queue_size m s = Some s1"
    and r: "run proc queue_size ms s1 = Some s'"
    by (auto split: option.splits)
  from step_inv[OF Cons.prems(1) s1] have ok1: "consumer_ok s1"
    and f1: "fold proc (transaction_metadata_process_queue s1 @ transaction_metadata_queue s1) (db s1) =
         fold proc (transaction_metadata_process_queue s @ transaction_metadata_queue s @ enqueued [m]) (db s)"
    by simp_all
  from Cons.IH[OF ok1 r] have "consumer_ok s'" and
    "fold proc (transaction_metadata_process_queue s' @ transaction_metadata_queue s') (db s') =
         fold proc (transaction_metadata_process_queue s1 @ transaction_metadata_queue s1 @ enqueued ms) (db s1)"
    by simp_all
  with f1 show ?case
    by (simp add: enqueued_Cons[of m ms])
qed

lemma consumer_ok_started: "consumer_ok (started d)"
  by (simp add: consumer_ok_def started_def)

lemma consume_blocks_stuck:
  "consume_step proc queue_size s = None \<Longrightarrow> consume_blocks proc queue_size n s = s"
  by (cases n) simp_all

lemma consume_blocks_add:
  "consume_blocks proc queue_size (m + n) s =
   consume_blocks proc queue_size n (consume_blocks proc queue_size m s)"
proof (induction m arbitrary: s)
  case 0
  then show ?case by simp
next
  case (Suc m)
  show ?case
  proof (cases "consume_step proc queue_size s")
    case None
    then show ?thesis by (simp add: consume_blocks_stuck)
  next
    case (Some s1)
    with Suc.IH[of s1] show ?thesis by simp
  qed
qed

lemma consume_blocks_batch:
  "consumer s = Processing k \<Longrightarrow> transaction_metadata_process_queue s = xs \<Longrightarrow>
   consume_blocks proc queue_size (length xs) s =
   s\<lparr>db := fold proc xs (db s), transaction_metadata_process_queue := []\<rparr>"
proof (induction xs arbitrary: s)
  case Nil
  then show ?case by simp
next
  case (Cons x xs)
  let ?s1 = "s\<lparr>db := proc x (db s), transaction_metadata_process_queue := xs\<rparr>"
  have st: "consume_step proc queue_size s = Some ?s1"
    using Cons.prems by (simp add: consume_step_def)
  have "consume_blocks proc queue_size (length xs) ?s1 =
        ?s1\<lparr>db := fold proc xs (db ?s1), transaction_metadata_process_queue := []\<rparr>"
    by (rule Cons.IH) (simp_all add: Cons.prems)
  with st show ?case by simp
qed

lemma consume_blocks_empty_done:
  assumes "done_flag s" "consumer s = Waiting" "transaction_metadata_queue s = []"
    "transaction_metadata_process_queue s = []"
  shows "consume_blocks proc queue_size 3 s =
         s\<lparr>log := log s @ [Ilog_draining_queue 0, Ilog_shutdown_gracefully], consumer := Terminated\<rparr>"
  using assms by (simp add: numeral_3_eq_3 consume_step_def)

lemma consume_blocks_capture_done:
  assumes "done_flag s" "consumer s = Waiting" "transaction_metadata_queue s = x # xs"
  shows "consume_blocks proc queue_size 2 s =
         s\<lparr>transaction_metadata_process_queue := x # xs, transaction_metadata_queue := [],
           log := log s @ (if 4 * length (x # xs) > 3 * queue_size
                           then [Wlog_queue_size (length (x # xs))]
                           else [Ilog_draining_queue (length (x # xs))]),
           consumer := Processing (length (x # xs))\<rparr>"
  using assms by (simp add: numeral_2_eq_2 consume_step_def)

lemma drain_from_waiting:
  assumes "done_flag s" "consumer s = Waiting" "transaction_metadata_process_queue s = []"
  shows "(let n = length (transaction_metadata_queue s);
              s' = consume_blocks proc queue_size (n + 6) s
          in consumer s' = Terminated \<and>
             db s' = fold proc (transaction_metadata_queue s) (db s) \<and>
             transaction_metadata_queue s' = [] \<and>
             transaction_metadata_process_queue s' = [] \<and>
             log s' = log s @
               (if n = 0 then []
                else if 4 * n > 3 * queue_size then [Wlog_queue_size n]
                else [Ilog_draining_queue n]) @
               [Ilog_draining_queue 0, Ilog_shutdown_gracefully])"
proof (cases "transaction_metadata_queue s")
  case Nil
  have "consume_blocks proc queue_size (3 + 3) s =
        consume_blocks proc queue_size 3 (consume_blocks proc queue_size 3 s)"
    by (rule consume_blocks_add)
  also have "\<dots> = s\<lparr>log := log s @ [Ilog_draining_queue 0, Ilog_shutdown_gracefully], consumer := Terminated\<rparr>"
    using assms Nil by (simp add: consume_blocks_empty_done consume_blocks_stuck consume_step_def)
  finally show ?thesis using Nil assms by simp
next
  case (Cons x xs)
  let ?n = "length (x # xs)"
  let ?s2 = "s\<lparr>transaction_metadata_process_queue := x # xs, transaction_metadata_queue := [],
           log := log s @ (if 4 * ?n > 3 * queue_size
                           then [Wlog_queue_size ?n]
                           else [Ilog_draining_queue ?n]),
           consumer := Processing ?n\<rparr>"
  let ?s3 = "?s2\<lparr>db := fold proc (x # xs) (db ?s2), transaction_metadata_process_queue := []\<rparr>"
  let ?s4 = "?s3\<lparr>consumer := Waiting\<rparr>"
  have a: "consume_blocks proc queue_size 2 s = ?s2"
    using assms Cons by (rule_tac consume_blocks_capture_done) simp_all
  have b: "consume_blocks proc queue_size ?n ?s2 = ?s3"
    by (rule consume_blocks_batch) simp_all
  have c: "consume_blocks proc queue_size 1 ?s3 = ?s4"
    by (simp add: consume_step_def)
  have d: "consume_blocks proc queue_size 3 ?s4 =
           ?s4\<lparr>log := log ?s4 @ [Ilog_draining_queue 0, Ilog_shutdown_gracefully], consumer := Terminated\<rparr>"
    by (rule consume_blocks_empty_done) (simp_all add: assms)
  have "consume_blocks proc queue_size (2 + (?n + (1 + 3))) s =
        consume_blocks proc queue_size 3 (consume_blocks proc queue_size 1
          (consume_blocks proc queue_size ?n (consume_blocks proc queue_size 2 s)))"
    by (simp only: consume_blocks_add)
  also have "\<dots> = ?s4\<lparr>log := log ?s4 @ [Ilog_draining_queue 0, Ilog_shutdown_gracefully], consumer := Terminated\<rparr>"
    by (simp only: a b c d)
  finally have "consume_blocks proc queue_size (?n + 6) s =
     ?s4\<lparr>log := log ?s4 @ [Ilog_draining_queue 0, Ilog_shutdown_gracefully], consumer := Terminated\<rparr>"
    by (simp add: add.commute add.left_commute)
  then show ?thesis using Cons by (simp add: Let_def)
qed

lemma consume_blocks_terminated:
  "consumer s = Terminated \<Longrightarrow> consume_blocks proc queue_size n s = s"
  by (rule consume_blocks_stuck) (simp add: consume_step_def)

lemma drain_waiting:
  assumes "done_flag s" "consumer s = Waiting" "transaction_metadata_process_queue s = []"
  shows "consumer (consume_blocks proc queue_size (length (transaction_metadata_queue s) + 6) s) = Terminated \<and>
         db (consume_blocks proc queue_size (length (transaction_metadata_queue s) + 6) s) =
           fold proc (transaction_metadata_queue s) (db s)"
  using drain_from_waiting[OF assms, of proc queue_size] by (simp add: Let_def)

lemma drain_processing:
  assumes "done_flag s" "consumer s = Processing k" "0 < k"
  shows "consumer (consume_blocks proc queue_size
            (length (transaction_metadata_process_queue s) + (1 + (length (transaction_metadata_queue s) + 6))) s) = Terminated \<and>
         db (consume_blocks proc queue_size
            (length (transaction_metadata_process_queue s) + (1 + (length (transaction_metadata_queue s) + 6))) s) =
           fold proc (transaction_metadata_process_queue s @ transaction_metadata_queue s) (db s)"
proof -
  let ?pq = "transaction_metadata_process_queue s"
  let ?s1 = "s\<lparr>db := fold proc ?pq (db s), transaction_metadata_process_queue := []\<rparr>"
  let ?s2 = "?s1\<lparr>consumer := Waiting\<rparr>"
  have a: "consume_blocks proc queue_size (length ?pq) s = ?s1"
    using assms(2) by (rule consume_blocks_batch) simp
  have b: "consume_blocks proc queue_size 1 ?s1 = ?s2"
    using assms by (simp add: consume_step_def)
  have c: "consumer (consume_blocks proc queue_size (length (transaction_metadata_queue ?s2) + 6) ?s2) = Terminated \<and>
         db (consume_blocks proc queue_size (length (transaction_metadata_queue ?s2) + 6) ?s2) =
           fold proc (transaction_metadata_queue ?s2) (db ?s2)"
    by (rule drain_waiting) (simp_all add: assms)
  have "consume_blocks proc queue_size (length ?pq + (1 + (length (transaction_metadata_queue s) + 6))) s =
        consume_blocks proc queue_size (length (transaction_metadata_queue s) + 6)
          (consume_blocks proc queue_size 1 (consume_blocks proc queue_size (length ?pq) s))"
    by (simp only: consume_blocks_add)
  also have "\<dots> = consume_blocks proc queue_size (length (transaction_metadata_queue ?s2) + 6) ?s2"
    by (simp only: a b) simp
  finally show ?thesis using c by simp
qed

lemma drain_captured:
  assumes "done_flag s" "consumer s = Captured k" "0 < k"
  shows "consumer (consume_blocks proc queue_size
            (1 + (length (transaction_metadata_process_queue s) + (1 + (length (transaction_metadata_queue s) + 6)))) s) = Terminated \<and>
         db (consume_blocks proc queue_size
            (1 + (length (transaction_metadata_process_queue s) + (1 + (length (transaction_metadata_queue s) + 6)))) s) =
           fold proc (transaction_metadata_process_queue s @ transaction_metadata_queue s) (db s)"
proof -
  let ?s1 = "s\<lparr>log := log s @ (if 4 * k > 3 * queue_size then [Wlog_queue_size k] else [Ilog_draining_queue k]),
               consumer := Processing k\<rparr>"
  have a: "consume_blocks proc queue_size 1 s = ?s1"
    using assms by (simp add: consume_step_def)
  have c: "consumer (consume_blocks proc queue_size
            (length (transaction_metadata_process_queue ?s1) + (1 + (length (transaction_metadata_queue ?s1) + 6))) ?s1) = Terminated \<and>
         db (consume_blocks proc queue_size
            (length (transaction_metadata_process_queue ?s1) + (1 + (length (transaction_metadata_queue ?s1) + 6))) ?s1) =
           fold proc (transaction_metadata_process_queue ?s1 @ transaction_metadata_queue ?s1) (db ?s1)"
    by (rule drain_processing[where k = k]) (simp_all add: assms)
  have "consume_blocks proc queue_size
            (1 + (length (transaction_metadata_process_queue s) + (1 + (length (transaction_metadata_queue s) + 6)))) s =
        consume_blocks proc queue_size
            (length (transaction_metadata_process_queue s) + (1 + (length (transaction_metadata_queue s) + 6)))
            (consume_blocks proc queue_size 1 s)"
    by (simp only: consume_blocks_add)
  with a c show ?thesis by simp
qed

lemma consume_blocks_more:
  assumes "consume_step proc queue_size (consume_blocks proc queue_size m s) = None" "m \<le> n"
  shows "consume_blocks proc queue_size n s = consume_blocks proc queue_size m s"
proof -
  from assms(2) obtain k where "n = m + k" by (auto simp: le_iff_add)
  then show ?thesis
    using assms(1) by (simp add: consume_blocks_add consume_blocks_stuck)
qed

lemma destructor_not_blocked:
  "consumer s \<noteq> Blocked \<Longrightarrow> destructor s = s\<lparr>done_flag := True\<rparr>"
  by (simp add: destructor_def notify_one_def)

lemma destructor_blocked:
  "consumer s = Blocked \<Longrightarrow> destructor s = s\<lparr>done_flag := True, consumer := Waiting\<rparr>"
  by (simp add: destructor_def notify_one_def)

text \<open>
  The lost wake-up: when the destructor runs while the consumer stands between its test
  of \<open>done\<close> and the wait, the notification finds no waiting thread, and the consumer
  enters the wait and stays there.
\<close>

lemma shutdown_signal_lost:
  assumes "consumer s = About_to_wait"
  shows "consume_blocks proc queue_size (Suc n) (destructor s) = s\<lparr>done_flag := True, consumer := Blocked\<rparr>"
proof -
  have "consume_step proc queue_size (s\<lparr>done_flag := True\<rparr>) = Some (s\<lparr>done_flag := True, consumer := Blocked\<rparr>)"
    using assms by (simp add: consume_step_def)
  moreover have "consume_step proc queue_size (s\<lparr>done_flag := True, consumer := Blocked\<rparr>) = None"
    by (simp add: consume_step_def)
  ultimately show ?thesis
    using assms by (simp add: destructor_not_blocked consume_blocks_stuck)
qed

lemma drain_any:
  assumes ok: "consumer_ok s" and nd: "\<not> done_flag s"
    and n: "length (transaction_metadata_process_queue s) + length (transaction_metadata_queue s) + 8 \<le> n"
  shows "db (consume_blocks proc queue_size n (destructor s)) =
           fold proc (transaction_metadata_process_queue s @ transaction_metadata_queue s) (db s) \<and>
         (consumer s \<noteq> About_to_wait \<longrightarrow>
            consumer (consume_blocks proc queue_size n (destructor s)) = Terminated)"
proof -
  let ?s = "destructor s"
  let ?goal = "\<lambda>s'. db s' =
           fold proc (transaction_metadata_process_queue s @ transaction_metadata_queue s) (db s) \<and>
         (consumer s \<noteq> About_to_wait \<longrightarrow> consumer s' = Terminated)"
  have "\<exists>m \<le> n. consume_step proc queue_size (consume_blocks proc queue_size m ?s) = None \<and>
          ?goal (consume_blocks proc queue_size m ?s)"
  proof (cases "consumer s")
    case Waiting
    with ok have pq: "transaction_metadata_process_queue s = []" by (simp add: consumer_ok_def)
    have d: "?s = s\<lparr>done_flag := True\<rparr>" using Waiting by (simp add: destructor_not_blocked)
    have "consumer (consume_blocks proc queue_size (length (transaction_metadata_queue ?s) + 6) ?s) = Terminated \<and>
         db (consume_blocks proc queue_size (length (transaction_metadata_queue ?s) + 6) ?s) =
           fold proc (transaction_metadata_queue ?s) (db ?s)"
      by (rule drain_waiting) (simp_all add: d Waiting pq)
    with pq n d show ?thesis
      by (intro exI[of _ "length (transaction_metadata_queue s) + 6"]) (simp add: consume_step_def)
  next
    case About_to_wait
    with ok have e: "transaction_metadata_process_queue s = []" "transaction_metadata_queue s = []"
      by (simp_all add: consumer_ok_def)
    from shutdown_signal_lost[OF About_to_wait, of proc queue_size 0] e n About_to_wait
    show ?thesis
      by (intro exI[of _ "Suc 0"]) (simp add: consume_step_def)
  next
    case Blocked
    with ok have e: "transaction_metadata_process_queue s = []" "transaction_metadata_queue s = []"
      by (simp_all add: consumer_ok_def)
    have d: "?s = s\<lparr>done_flag := True, consumer := Waiting\<rparr>"
      using Blocked by (rule destructor_blocked)
    have "consumer (consume_blocks proc queue_size (length (transaction_metadata_queue ?s) + 6) ?s) = Terminated \<and>
         db (consume_blocks proc queue_size (length (transaction_metadata_queue ?s) + 6) ?s) =
           fold proc (transaction_metadata_queue ?s) (db ?s)"
      by (rule drain_waiting) (simp_all add: d e)
    with e n d show ?thesis
      by (intro exI[of _ "length (transaction_metadata_queue s) + 6"]) (simp add: consume_step_def)
  next
    case (Captured k)
    with ok nd have k: "0 < k" by (simp add: consumer_ok_def)
    have d: "?s = s\<lparr>done_flag := True\<rparr>" using Captured by (simp add: destructor_not_blocked)
    have "consumer (consume_blocks proc queue_size
            (1 + (length (transaction_metadata_process_queue ?s) + (1 + (length (transaction_metadata_queue ?s) + 6)))) ?s) = Terminated \<and>
         db (consume_blocks proc queue_size
            (1 + (length (transaction_metadata_process_queue ?s) + (1 + (length (transaction_metadata_queue ?s) + 6)))) ?s) =
           fold proc (transaction_metadata_process_queue ?s @ transaction_metadata_queue ?s) (db ?s)"
      by (rule drain_captured[where k = k]) (simp_all add: d Captured k)
    with n d show ?thesis
      by (intro exI[of _ "1 + (length (transaction_metadata_process_queue s) + (1 + (length (transaction_metadata_queue s) + 6)))"])
         (simp add: consume_step_def)
  next
    case (Processing k)
    with ok nd have k: "0 < k" by (simp add: consumer_ok_def)
    have d: "?s = s\<lparr>done_flag := True\<rparr>" using Processing by (simp add: destructor_not_blocked)
    have "consumer (consume_blocks proc queue_size
            (length (transaction_metadata_process_queue ?s) + (1 + (length (transaction_metadata_queue ?s) + 6))) ?s) = Terminated \<and>
         db (consume_blocks proc queue_size
            (length (transaction_metadata_process_queue ?s) + (1 + (length (transaction_metadata_queue ?s) + 6))) ?s) =
           fold proc (transaction_metadata_process_queue ?s @ transaction_metadata_queue ?s) (db ?s)"
      by (rule drain_processing[where k = k]) (simp_all add: d Processing k)
    with n d show ?thesis
      by (intro exI[of _ "length (transaction_metadata_process_queue s) + (1 + (length (transaction_metadata_queue s) + 6))"])
         (simp add: consume_step_def)
  next
    case Terminated
    with ok nd show ?thesis by (simp add: consumer_ok_def)
  qed
  then obtain m where "m \<le> n"
    and t: "consume_step proc queue_size (consume_blocks proc queue_size m ?s) = None"
    and d: "?goal (consume_blocks proc queue_size m ?s)"
    by blast
  from consume_blocks_more[OF t \<open>m \<le> n\<close>] d show ?thesis by simp
qed

lemma step_done_flag:
  "step proc queue_size m s = Some s' \<Longrightarrow> m \<noteq> Shutdown \<Longrightarrow> done_flag s' = done_flag s"
  by (cases m)
     (auto simp: step_def consume_step_def notify_one_def Let_def
        split: consumer_pc.splits if_splits list.splits)

lemma run_done_flag:
  "run proc queue_size ms s = Some s' \<Longrightarrow> Shutdown \<notin> set ms \<Longrightarrow> done_flag s' = done_flag s"
proof (induction ms arbitrary: s)
  case Nil
  then show ?case by simp
next
  case (Cons m ms)
  from Cons.prems obtain s1 where s1: "step proc queue_size m s = Some s1"
    and r: "run proc queue_size ms s1 = Some s'"
    by (auto split: option.splits)
  from Cons.prems(2) have "m \<noteq> Shutdown" "Shutdown \<notin> set ms" by auto
  with step_done_flag[OF s1] Cons.IH[OF r] show ?case by simp
qed

text \<open>
  Claim C5. In every state the plugin reaches under any interleaving of enqueues,
  notifications and consumer steps, the events processed so far, then the private
  batch, then the pending queue are the submitted events in their order: processing
  follows the enqueue order, nothing is processed twice and nothing is lost across the
  swap. When the producer has stopped and the destructor runs, the consumer processes
  every submitted event; it also leaves its loop, unless the destructor ran between the
  consumer's test of \<open>done\<close> and its wait.
\<close>

theorem consumer_fifo:
  assumes "run record_call queue_size sched (started []) = Some s"
  shows "db s @ transaction_metadata_process_queue s @ transaction_metadata_queue s = enqueued sched \<and>
         (distinct (enqueued sched) \<longrightarrow> distinct (db s)) \<and>
         (Shutdown \<notin> set sched \<longrightarrow>
            (let s' = consume_blocks record_call queue_size (length (enqueued sched) + 8) (destructor s)
             in db s' = enqueued sched \<and>
                (consumer s \<noteq> About_to_wait \<longrightarrow> consumer s' = Terminated)))"
proof -
  from run_inv[OF consumer_ok_started assms]
  have ok: "consumer_ok s"
    and inv: "db s @ transaction_metadata_process_queue s @ transaction_metadata_queue s = enqueued sched"
    by (simp_all add: fold_record_call started_def)
  from inv have dist: "distinct (enqueued sched) \<longrightarrow> distinct (db s)"
    by (metis distinct_append)
  have live: "db (consume_blocks record_call queue_size (length (enqueued sched) + 8) (destructor s)) = enqueued sched \<and>
       (consumer s \<noteq> About_to_wait \<longrightarrow>
          consumer (consume_blocks record_call queue_size (length (enqueued sched) + 8) (destructor s)) = Terminated)"
    if ns: "Shutdown \<notin> set sched"
  proof -
    from run_done_flag[OF assms ns] have nd: "\<not> done_flag s" by (simp add: started_def)
    have "length (transaction_metadata_process_queue s) + length (transaction_metadata_queue s) + 8
          \<le> length (enqueued sched) + 8"
      using arg_cong[OF inv, of length] by simp
    from drain_any[OF ok nd this, of record_call queue_size] inv show ?thesis
      by (simp add: fold_record_call)
  qed
  from inv dist live show ?thesis by (simp add: Let_def)
qed

text \<open>An interleaving in which the producer appends while a captured batch is being processed.\<close>

theorem consumer_fifo_witness:
  "run record_call 2 [Enqueue (1::nat), Enqueue 2, Consume, Enqueue 3, Consume, Consume, Enqueue 4, Consume]
       (started []) =
     Some \<lparr>transaction_metadata_queue = [3, 4], transaction_metadata_process_queue = [],
           done_flag = False, db = [1, 2], log = [Wlog_queue_size 2], consumer = Processing 2\<rparr> \<and>
   consumer (consume_blocks record_call 2 12
      (destructor \<lparr>transaction_metadata_queue = [3::nat, 4], transaction_metadata_process_queue = [],
       done_flag = False, db = [1, 2], log = [Wlog_queue_size 2], consumer = Processing 2\<rparr>)) = Terminated \<and>
   db (consume_blocks record_call 2 12
      (destructor \<lparr>transaction_metadata_queue = [3::nat, 4], transaction_metadata_process_queue = [],
       done_flag = False, db = [1, 2], log = [Wlog_queue_size 2], consumer = Processing 2\<rparr>)) = [1, 2, 3, 4]"
proof -
  have r: "run record_call 2 [Enqueue (1::nat), Enqueue 2, Consume, Enqueue 3, Consume, Consume, Enqueue 4, Consume]
       (started []) =
     Some \<lparr>transaction_metadata_queue = [3, 4], transaction_metadata_process_queue = [],
           done_flag = False, db = [1, 2], log = [Wlog_queue_size 2], consumer = Processing 2\<rparr>"
    by (simp add: step_def consume_step_def queue_def notify_one_def started_def record_call_def)
  from consumer_fifo[OF r] r show ?thesis by (simp add: Let_def)
qed




section \<open>Properties of the account registry\<close>

lemma setabi_neq_newaccount: "setabi \<noteq> newaccount"
  by (simp add: setabi_def newaccount_def)

lemma find_account_in_set: "find_account accounts n = Some d \<Longrightarrow> d \<in> set accounts \<and> acc_name d = n"
  by (auto simp: find_account_def find_Some_iff)

lemma fold_max_ge: "k \<le> fold (\<lambda>d m. max (Suc (oid d)) m) accounts k"
proof (induction accounts arbitrary: k)
  case Nil
  then show ?case by simp
next
  case (Cons a accounts)
  have "k \<le> max (Suc (oid a)) k" by simp
  also have "\<dots> \<le> fold (\<lambda>d m. max (Suc (oid d)) m) accounts (max (Suc (oid a)) k)"
    by (rule Cons.IH)
  finally show ?case by simp
qed

lemma fold_max_gt: "d \<in> set accounts \<Longrightarrow> oid d < fold (\<lambda>d m. max (Suc (oid d)) m) accounts k"
proof (induction accounts arbitrary: k)
  case Nil
  then show ?case by simp
next
  case (Cons a accounts)
  show ?case
  proof (cases "d = a")
    case True
    have "oid a < max (Suc (oid a)) k" by simp
    also have "\<dots> \<le> fold (\<lambda>d m. max (Suc (oid d)) m) accounts (max (Suc (oid a)) k)"
      by (rule fold_max_ge)
    finally show ?thesis using True by simp
  next
    case False
    with Cons.prems have "d \<in> set accounts" by simp
    from Cons.IH[OF this] show ?thesis by simp
  qed
qed

lemma fresh_oid_fresh: "fresh_oid accounts \<notin> oid ` set accounts"
proof
  assume "fresh_oid accounts \<in> oid ` set accounts"
  then obtain d where d: "d \<in> set accounts" and e: "fresh_oid accounts = oid d" by auto
  from fold_max_gt[OF d, of 0] e show False by (simp add: fresh_oid_def)
qed

lemma insert_one_distinct:
  "distinct (map oid accounts) \<Longrightarrow> distinct (map oid (insert_one accounts n now))"
  using fresh_oid_fresh[of accounts] by (simp add: insert_one_def)

lemma find_append_absent: "find P xs = None \<Longrightarrow> P x \<Longrightarrow> find P (xs @ [x]) = Some x"
  by (induction xs) (auto split: if_splits)

lemma find_account_insert_one_absent:
  "find_account accounts n = None \<Longrightarrow>
   find_account (insert_one accounts n now) n =
     Some \<lparr>oid = fresh_oid accounts, acc_name = n, createdAt = now, abi = None, updatedAt = None\<rparr>"
  by (simp add: find_account_def insert_one_def find_append_absent)

lemma update_one_found:
  "distinct (map oid accounts) \<Longrightarrow> find_account accounts n = Some d \<Longrightarrow>
   find_account (update_one (oid d) j now accounts) n = Some (d\<lparr>abi := Some j, updatedAt := Some now\<rparr>)"
proof (induction accounts)
  case Nil
  then show ?case by (simp add: find_account_def)
next
  case (Cons a accounts)
  show ?case
  proof (cases "acc_name a = n")
    case True
    with Cons.prems show ?thesis by (simp add: find_account_def)
  next
    case False
    with Cons.prems have f: "find_account accounts n = Some d" by (simp add: find_account_def)
    then have "d \<in> set accounts" by (simp add: find_account_in_set)
    with Cons.prems(1) have "oid a \<noteq> oid d" by auto
    moreover from Cons.prems(1) have "distinct (map oid accounts)" by simp
    ultimately show ?thesis using Cons.IH f False by (simp add: find_account_def)
  qed
qed

lemma update_one_names: "map acc_name (update_one i j now accounts) = map acc_name accounts"
  by (induction accounts) simp_all

text \<open>
  Claim C2, as the code has it. For a \<open>setabi\<close> action of the system account whose
  payload unpacks: when the schema bytes fail to unpack, no existing record is changed,
  and a record of the target account with name and creation time only is appended if none
  existed (the lookup and insert of lines 266-273 come before the unpack of line 276);
  when the schema bytes unpack and render, the target account's record, created if
  missing, carries the schema and the update time, and no other name is added.
\<close>

theorem setabi_registry_effect:
  assumes "account act = system_account_name L" and "name act = setabi"
    and "data_as_setabi L (data act) = Inr sa"
    and "distinct (map oid accounts)"
  shows "(\<forall>e. unpack_abi_def L (setabi_abi sa) = Inl e \<longrightarrow>
            snd (update_account L now accounts act) =
              (if find_account accounts (setabi_account sa) = None
               then accounts @ [\<lparr>oid = fresh_oid accounts, acc_name = setabi_account sa,
                                 createdAt = now, abi = None, updatedAt = None\<rparr>]
               else accounts)) \<and>
         (\<forall>a j. unpack_abi_def L (setabi_abi sa) = Inr a \<and> abi_def_to_bson L a = Inr j \<longrightarrow>
            (\<exists>d. find_account (snd (update_account L now accounts act)) (setabi_account sa) = Some d \<and>
                 abi d = Some j \<and> updatedAt d = Some now) \<and>
            map acc_name (snd (update_account L now accounts act)) =
              (if find_account accounts (setabi_account sa) = None
               then map acc_name accounts @ [setabi_account sa]
               else map acc_name accounts))"
proof (cases "find_account accounts (setabi_account sa)")
  case None
  let ?new = "\<lparr>oid = fresh_oid accounts, acc_name = setabi_account sa,
                createdAt = now, abi = None, updatedAt = None\<rparr> :: 'b account_doc"
  let ?acc1 = "insert_one accounts (setabi_account sa) now"
  have f1: "find_account ?acc1 (setabi_account sa) = Some ?new"
    using None by (rule find_account_insert_one_absent)
  have d1: "distinct (map oid ?acc1)"
    using assms(4) by (rule insert_one_distinct)
  have upd: "\<And>j. find_account (update_one (oid ?new) j now ?acc1) (setabi_account sa) =
               Some (?new\<lparr>abi := Some j, updatedAt := Some now\<rparr>)"
    using d1 f1 by (rule update_one_found)
  show ?thesis
    using assms None f1 upd setabi_neq_newaccount
    by (auto simp: update_account_def catch_fc_def update_one_names Let_def insert_one_def
             split: sum.splits)
next
  case (Some d)
  have upd: "\<And>j. find_account (update_one (oid d) j now accounts) (setabi_account sa) =
               Some (d\<lparr>abi := Some j, updatedAt := Some now\<rparr>)"
    using assms(4) Some by (rule update_one_found)
  show ?thesis
    using assms Some upd setabi_neq_newaccount
    by (auto simp: update_account_def catch_fc_def update_one_names Let_def
             split: sum.splits)
qed


text \<open>
  On an empty registry, a \<open>setabi\<close> for \<open>bob\<close> whose schema bytes do not unpack creates
  the record of \<open>bob\<close>.
\<close>

theorem setabi_registry_effect_counterexample:
  "data_as_setabi demo_lib (data setabi_bob_junk) = Inr \<lparr>setabi_account = ''bob'', setabi_abi = ''junk''\<rparr> \<and>
   unpack_abi_def demo_lib ''junk'' = Inl Fc_exception \<and>
   find_account (accounts_col empty_store) ''bob'' = None \<and>
   snd (update_account demo_lib 7 (accounts_col empty_store) setabi_bob_junk) =
     [\<lparr>oid = 0, acc_name = ''bob'', createdAt = 7, abi = None, updatedAt = None\<rparr>]"
  by (simp add: demo_lib_def update_account_def find_account_def insert_one_def fresh_oid_def
        catch_fc_def setabi_def newaccount_def setabi_bob_junk_def empty_store_def)

text \<open>The same failing action on a registry that already holds \<open>bob\<close>, and a successful one.\<close>

theorem setabi_registry_effect_witness:
  "snd (update_account demo_lib 9
          [\<lparr>oid = 0, acc_name = ''bob'', createdAt = 7, abi = None, updatedAt = None\<rparr>]
          setabi_bob_junk) =
     [\<lparr>oid = 0, acc_name = ''bob'', createdAt = 7, abi = None, updatedAt = None\<rparr>] \<and>
   (\<exists>d. find_account (snd (update_account demo_lib 8 (accounts_col empty_store) setabi_bob_abi1)) ''bob'' = Some d \<and>
        abi d = Some ''abi1'' \<and> updatedAt d = Some 8)"
proof -
  let ?bob = "\<lparr>oid = 0, acc_name = ''bob'', createdAt = 7, abi = None, updatedAt = None\<rparr> :: string account_doc"
  have a1: "account setabi_bob_junk = system_account_name demo_lib"
    and a2: "name setabi_bob_junk = setabi"
    and a3: "data_as_setabi demo_lib (data setabi_bob_junk) =
               Inr \<lparr>setabi_account = ''bob'', setabi_abi = ''junk''\<rparr>"
    and a4: "distinct (map oid [?bob])"
    and a5: "unpack_abi_def demo_lib (setabi_abi \<lparr>setabi_account = ''bob'', setabi_abi = ''junk''\<rparr>) = Inl Fc_exception"
    by (simp_all add: demo_lib_def setabi_bob_junk_def setabi_def)
  have b1: "account setabi_bob_abi1 = system_account_name demo_lib"
    and b2: "name setabi_bob_abi1 = setabi"
    and b3: "data_as_setabi demo_lib (data setabi_bob_abi1) =
               Inr \<lparr>setabi_account = ''bob'', setabi_abi = ''abi1''\<rparr>"
    and b4: "distinct (map oid (accounts_col empty_store))"
    and b5: "unpack_abi_def demo_lib (setabi_abi \<lparr>setabi_account = ''bob'', setabi_abi = ''abi1''\<rparr>) = Inr ''abi1'' \<and>
             abi_def_to_bson demo_lib ''abi1'' = Inr ''abi1''"
    by (simp_all add: demo_lib_def setabi_bob_abi1_def setabi_def empty_store_def)
  from setabi_registry_effect[OF a1 a2 a3 a4, of 9] a5
  have fail: "snd (update_account demo_lib 9 [?bob] setabi_bob_junk) = [?bob]"
    by (simp add: find_account_def)
  from setabi_registry_effect[OF b1 b2 b3 b4, of 8] b5
  have ok: "\<exists>d. find_account (snd (update_account demo_lib 8 (accounts_col empty_store) setabi_bob_abi1)) ''bob'' = Some d \<and>
        abi d = Some ''abi1'' \<and> updatedAt d = Some 8"
    by simp
  from fail ok show ?thesis by simp
qed

section \<open>Properties of the account-creation path\<close>

text \<open>
  Claim C4. The claim says that two \<open>newaccount\<close> actions for one name leave one record of
  that name. The \<open>newaccount\<close> branch inserts without looking the name up (the \<open>setabi\<close>
  branch and \<open>init\<close> look first): after two \<open>newaccount\<close> actions for \<open>alice\<close> the
  registry holds two records named \<open>alice\<close>.
\<close>

theorem newaccount_twice_two_records:
  "map acc_name
     (snd (update_account demo_lib 2
        (snd (update_account demo_lib 1 (accounts_col empty_store) newaccount_alice))
        newaccount_alice)) =
   [''alice'', ''alice'']"
  by (simp add: demo_lib_def update_account_def insert_one_def newaccount_def
        newaccount_alice_def empty_store_def)

section \<open>Properties of the decoder\<close>

lemma add_data_shape:
  "\<exists>v. add_data L doc accounts act = doc @ [(''data'', v)] \<or>
       add_data L doc accounts act = doc @ [(''hex_data'', v)]"
  by (auto simp: add_data_def decode_with_account_abi_def hex_data_def
        split: sum.splits option.splits)

lemma add_data_tiers:
  "add_data L act_doc accounts act =
     act_doc @ [case structured_payload L accounts act of
                  Some v \<Rightarrow> (''data'', v)
                | None \<Rightarrow> (''hex_data'', B_utf8 (to_hex L (data act)))]"
  by (auto simp: add_data_def decode_with_account_abi_def hex_data_def structured_payload_def
        special_case_tier_def schema_tier_def
        split: sum.splits option.splits)

text \<open>
  Claim C6. \<open>add_data\<close> appends exactly one field to the document it is given: the
  field \<open>data\<close> with the structured payload of the first tier that succeeds, and the
  field \<open>hex_data\<close> with the raw payload when no tier succeeds. So the action document,
  whose other fields are those of lines 417-429, holds exactly one of the two, never both
  and never neither, and it holds \<open>data\<close> exactly when a tier has succeeded.
\<close>

theorem add_data_one_payload:
  "add_data L act_doc accounts act =
     act_doc @ [case structured_payload L accounts act of
                  Some v \<Rightarrow> (''data'', v)
                | None \<Rightarrow> (''hex_data'', B_utf8 (to_hex L (data act)))] \<and>
   (\<exists>v. add_data L act_doc accounts act = act_doc @ [(''data'', v)] \<or>
        add_data L act_doc accounts act = act_doc @ [(''hex_data'', v)]) \<and>
   (let d = add_data L (act_doc_header n trx_id_str cfa act) accounts act
    in has_field ''data'' d = (\<not> has_field ''hex_data'' d) \<and>
       has_field ''data'' d = (structured_payload L accounts act \<noteq> None) \<and>
       length (filter (\<lambda>kv. fst kv = ''data'' \<or> fst kv = ''hex_data'') d) = 1)"
proof -
  have "let d = add_data L (act_doc_header n trx_id_str cfa act) accounts act
    in has_field ''data'' d = (\<not> has_field ''hex_data'' d) \<and>
       has_field ''data'' d = (structured_payload L accounts act \<noteq> None) \<and>
       length (filter (\<lambda>kv. fst kv = ''data'' \<or> fst kv = ''hex_data'') d) = 1"
    by (cases "structured_payload L accounts act")
       (auto simp: add_data_tiers Let_def has_field_def act_doc_header_def)
  with add_data_shape[of L act_doc accounts act] add_data_tiers[of L act_doc accounts act]
  show ?thesis by blast
qed

text \<open>
  The three outcomes on concrete actions: a \<open>newaccount\<close> decoded by the first tier, a
  transfer decoded with the schema stored for its account, and a transfer of an account
  without a record stored raw.
\<close>

lemma add_data_examples:
  "add_data demo_lib [] [] newaccount_alice = [(''data'', B_json ''eosio/alice'')] \<and>
   add_data demo_lib []
     [\<lparr>oid = 0, acc_name = ''alice'', createdAt = 1, abi = Some ''abi1'', updatedAt = Some 2\<rparr>]
     alice_transfer = [(''data'', B_json ''transfer=x'')] \<and>
   add_data demo_lib [] [] alice_transfer = [(''hex_data'', B_utf8 ''x'')]"
  by (simp add: demo_lib_def add_data_def decode_with_account_abi_def hex_data_def
        find_account_def stored_abi_def newaccount_def setabi_def
        newaccount_alice_def alice_transfer_def)

text \<open>
  Claim C7, as the code has it. For a \<open>setabi\<close> action of the system account whose payload
  unpacks but whose embedded schema bytes do not, the first tier appends nothing. When the
  failure is an \<open>fc::exception\<close> the action is decoded like any other: with the schema
  stored for the system account if that decode succeeds, as \<open>hex_data\<close> if it fails or if
  the system account has no record. Any other exception gives \<open>hex_data\<close> at once.
\<close>

theorem setabi_embedded_schema_failure:
  assumes "account act = system_account_name L" and "name act = setabi"
    and "data_as_setabi L (data act) = Inr sa"
    and "unpack_abi_def L (setabi_abi sa) = Inl e"
  shows "add_data L act_doc accounts act =
     (if e = Fc_exception then
        (case find_account accounts (system_account_name L) of
          None \<Rightarrow> act_doc @ [(''hex_data'', B_utf8 (to_hex L (data act)))]
        | Some d \<Rightarrow>
            (case binary_to_bson L (stored_abi L d) setabi (data act) of
               Inl x \<Rightarrow> act_doc @ [(''hex_data'', B_utf8 (to_hex L (data act)))]
             | Inr v \<Rightarrow> act_doc @ [(''data'', B_json v)]))
      else act_doc @ [(''hex_data'', B_utf8 (to_hex L (data act)))])"
  using assms setabi_neq_newaccount
  by (auto simp: add_data_def decode_with_account_abi_def hex_data_def
        split: option.splits sum.splits)


text \<open>
  With the freshly seeded registry (the system account has no schema yet) the action ends
  as \<open>hex_data\<close>: no structured document is produced.
\<close>

theorem setabi_embedded_schema_failure_counterexample:
  "data_as_setabi demo_lib (data setabi_bob_junk) = Inr \<lparr>setabi_account = ''bob'', setabi_abi = ''junk''\<rparr> \<and>
   unpack_abi_def demo_lib ''junk'' = Inl Fc_exception \<and>
   add_data demo_lib [] (accounts_col (init demo_lib 1 empty_store)) setabi_bob_junk =
     [(''hex_data'', B_utf8 ''bob:junk'')]"
  by (simp add: demo_lib_def add_data_def decode_with_account_abi_def hex_data_def init_def
        insert_one_def find_account_def stored_abi_def setabi_def newaccount_def
        setabi_bob_junk_def empty_store_def)

text \<open>When the system account has a schema stored, the second tier decodes the action.\<close>

theorem setabi_embedded_schema_failure_witness:
  "add_data demo_lib []
     [\<lparr>oid = 0, acc_name = ''eosio'', createdAt = 1, abi = Some ''abi0'', updatedAt = Some 2\<rparr>]
     setabi_bob_junk =
   [(''data'', B_json ''setabi=bob:junk'')]"
proof -
  have a1: "account setabi_bob_junk = system_account_name demo_lib"
    and a2: "name setabi_bob_junk = setabi"
    and a3: "data_as_setabi demo_lib (data setabi_bob_junk) =
               Inr \<lparr>setabi_account = ''bob'', setabi_abi = ''junk''\<rparr>"
    and a4: "unpack_abi_def demo_lib (setabi_abi \<lparr>setabi_account = ''bob'', setabi_abi = ''junk''\<rparr>) = Inl Fc_exception"
    by (simp_all add: demo_lib_def setabi_bob_junk_def setabi_def)
  from setabi_embedded_schema_failure[OF a1 a2 a3 a4, of "[]"
      "[\<lparr>oid = 0, acc_name = ''eosio'', createdAt = 1, abi = Some ''abi0'', updatedAt = Some 2\<rparr>]"]
  show ?thesis
    by (simp add: demo_lib_def find_account_def stored_abi_def setabi_def setabi_bob_junk_def)
qed


section \<open>Properties of the transaction processor\<close>

lemma add_data_header_account:
  "doc_account (add_data L (act_doc_header n tid cfa act) accounts act) = Some (B_utf8 (account act))"
  using add_data_shape[of L "act_doc_header n tid cfa act" accounts act]
  by (auto simp: doc_account_def act_doc_header_def)

lemma add_data_header_no_actions:
  "\<not> has_field ''actions'' (add_data L (act_doc_header n tid cfa act) accounts act)"
  using add_data_shape[of L "act_doc_header n tid cfa act" accounts act]
  by (auto simp: has_field_def act_doc_header_def)

lemma action_docs_accounts:
  "list_all2 (\<lambda>act d. doc_account d = Some (B_utf8 (account act))) acts
     (action_docs L now tid n accounts acts)"
  by (induction acts arbitrary: n accounts) (simp_all add: Let_def add_data_header_account)

lemma action_docs_no_actions:
  "list_all (\<lambda>d. \<not> has_field ''actions'' d) (action_docs L now tid n accounts acts)"
  by (induction acts arbitrary: n accounts) (simp_all add: Let_def add_data_header_no_actions)

lemma selected_Cons:
  "selected cfg (act # acts) (d # docs) =
     (if account act \<in> set (filter_contract cfg) then [d] else []) @ selected cfg acts docs"
  by (simp add: selected_def)

lemma selected_subset: "set (selected cfg acts docs) \<subseteq> set docs"
  unfolding selected_def by (auto dest: set_zip_rightD)

lemma selected_accounts:
  "list_all2 (\<lambda>act d. doc_account d = Some (B_utf8 (account act))) acts docs \<Longrightarrow>
   map doc_account (selected cfg acts docs) =
   map (\<lambda>act. Some (B_utf8 (account act))) (filter (\<lambda>act. account act \<in> set (filter_contract cfg)) acts)"
  by (induction acts docs rule: list_all2_induct) (simp_all add: selected_Cons selected_def)

lemma process_action_reached:
  assumes "start_block_reached cfg"
  shows "process_action L cfg now tid act False (accounts, l) =
     (snd (update_account L now accounts act),
      l\<lparr>act_num := act_num l + 1,
        action_array := action_array l @
           [add_data L (act_doc_header (act_num l) tid False act) (snd (update_account L now accounts act)) act],
        bulk_filter := bulk_filter l @
           (if account act \<in> set (filter_contract cfg)
            then [add_data L (act_doc_header (act_num l) tid False act) (snd (update_account L now accounts act)) act]
            else []),
        actions_to_write := True,
        filter_to_write := (filter_to_write l \<or> account act \<in> set (filter_contract cfg))\<rparr>)"
  using assms by (simp add: process_action_def Let_def)

lemma process_action_not_reached:
  assumes "\<not> start_block_reached cfg"
  shows "process_action L cfg now tid act False (accounts, l) =
     (snd (update_account L now accounts act), l\<lparr>act_num := act_num l + 1\<rparr>)"
  using assms by (simp add: process_action_def Let_def)

lemma fold_process_action_reached:
  assumes "start_block_reached cfg"
  shows "fold (\<lambda>act. process_action L cfg now tid act False) acts (accounts, l) =
     (registry_after L now acts accounts,
      l\<lparr>act_num := act_num l + int (length acts),
        action_array := action_array l @ action_docs L now tid (act_num l) accounts acts,
        bulk_filter := bulk_filter l @ selected cfg acts (action_docs L now tid (act_num l) accounts acts),
        actions_to_write := (actions_to_write l \<or> acts \<noteq> []),
        filter_to_write := (filter_to_write l \<or> selected cfg acts (action_docs L now tid (act_num l) accounts acts) \<noteq> [])\<rparr>)"
proof (induction acts arbitrary: accounts l)
  case Nil
  then show ?case by (simp add: registry_after_def selected_def)
next
  case (Cons act acts)
  have "fold (\<lambda>act. process_action L cfg now tid act False) (act # acts) (accounts, l) =
        fold (\<lambda>act. process_action L cfg now tid act False) acts
          (process_action L cfg now tid act False (accounts, l))"
    by simp
  also note process_action_reached[OF assms]
  also note Cons.IH
  finally show ?case
    by (simp add: registry_after_def selected_Cons Let_def)
qed

lemma fold_process_action_not_reached:
  assumes "\<not> start_block_reached cfg"
  shows "fold (\<lambda>act. process_action L cfg now tid act False) acts (accounts, l) =
     (registry_after L now acts accounts, l\<lparr>act_num := act_num l + int (length acts)\<rparr>)"
proof (induction acts arbitrary: accounts l)
  case Nil
  then show ?case by (simp add: registry_after_def)
next
  case (Cons act acts)
  have "fold (\<lambda>act. process_action L cfg now tid act False) (act # acts) (accounts, l) =
        fold (\<lambda>act. process_action L cfg now tid act False) acts
          (process_action L cfg now tid act False (accounts, l))"
    by simp
  also note process_action_not_reached[OF assms]
  also note Cons.IH
  finally show ?case
    by (simp add: registry_after_def)
qed

lemma process_reached:
  assumes "start_block_reached cfg"
  shows "u_process_accepted_transaction L cfg now t st =
     ((if actions t \<noteq> []
       then [(''actions'', B_array (map B_document (action_docs L now (trx_id t) 0 (accounts_col st) (actions t))))]
       else []),
      st\<lparr>accounts_col := registry_after L now (actions t) (accounts_col st),
         filter_col := filter_col st @
            selected cfg (actions t) (action_docs L now (trx_id t) 0 (accounts_col st) (actions t))\<rparr>)"
  using assms
  by (cases "actions t = []")
     (auto simp: u_process_accepted_transaction_def fold_process_action_reached Let_def selected_def
        registry_after_def)

lemma process_not_reached:
  assumes "\<not> start_block_reached cfg"
  shows "u_process_accepted_transaction L cfg now t st =
     ((if actions t \<noteq> [] then [(''actions'', B_array [])] else []),
      st\<lparr>accounts_col := registry_after L now (actions t) (accounts_col st)\<rparr>)"
  using assms
  by (simp add: u_process_accepted_transaction_def fold_process_action_not_reached Let_def)

text \<open>
  Claim C8. With output enabled, processing a transaction appends to the filter
  collection exactly the documents of those actions whose account is in
  \<open>filter_contract\<close>, in the order of the actions: the accounts of the appended documents
  are the accounts of the matching actions, and an empty filter set appends nothing.
\<close>

theorem filter_selects_persisted_actions:
  assumes "start_block_reached cfg"
  shows "filter_col (process_accepted_transaction L cfg now t st) =
           filter_col st @
           selected cfg (actions t) (action_docs L now (trx_id t) 0 (accounts_col st) (actions t)) \<and>
         map doc_account (drop (length (filter_col st)) (filter_col (process_accepted_transaction L cfg now t st))) =
           map (\<lambda>act. Some (B_utf8 (account act)))
               (filter (\<lambda>act. account act \<in> set (filter_contract cfg)) (actions t)) \<and>
         (filter_contract cfg = [] \<longrightarrow>
            filter_col (process_accepted_transaction L cfg now t st) = filter_col st)"
proof -
  let ?docs = "action_docs L now (trx_id t) 0 (accounts_col st) (actions t)"
  have a: "filter_col (process_accepted_transaction L cfg now t st) =
           filter_col st @ selected cfg (actions t) ?docs"
    by (simp add: process_accepted_transaction_def process_reached[OF assms])
  have b: "map doc_account (selected cfg (actions t) ?docs) =
           map (\<lambda>act. Some (B_utf8 (account act)))
               (filter (\<lambda>act. account act \<in> set (filter_contract cfg)) (actions t))"
    by (rule selected_accounts) (rule action_docs_accounts)
  have c: "filter_contract cfg = [] \<Longrightarrow> selected cfg (actions t) ?docs = []"
    by (simp add: selected_def)
  from a b c show ?thesis by simp
qed

text \<open>Filter set \<open>{alice}\<close>, a transaction with an action of \<open>bob\<close> and one of \<open>alice\<close>.\<close>

theorem filter_selects_persisted_actions_witness:
  "start_block_reached (plugin_initialize 0 [''alice'']) \<and>
   map doc_account
     (filter_col (process_accepted_transaction demo_lib (plugin_initialize 0 [''alice'']) 3
        \<lparr>trx_id = ''t1'', actions = [bob_transfer, alice_transfer]\<rparr> empty_store)) =
   [Some (B_utf8 ''alice'')]"
proof -
  have h: "start_block_reached (plugin_initialize 0 [''alice''])"
    by (simp add: plugin_initialize_def)
  have e: "filter_col empty_store = []"
    by (simp add: empty_store_def)
  have f: "filter_contract (plugin_initialize 0 [''alice'']) = [''alice'']"
    by (simp add: plugin_initialize_def)
  note filter_selects_persisted_actions[OF h, of demo_lib 3
      "\<lparr>trx_id = ''t1'', actions = [bob_transfer, alice_transfer]\<rparr>" empty_store,
      THEN conjunct2, THEN conjunct1]
  then show ?thesis
    using h by (simp add: e f alice_transfer_def bob_transfer_def)
qed

text \<open>
  Claim C10, as the code has it. Processing a transaction writes the store in two ways
  only: the account collection is what the calls of \<open>update_account\<close> for the actions
  leave, and the filter collection grows by exactly the documents of the filter-matching
  actions when output is enabled, and by nothing otherwise. None of the appended
  documents has an \<open>actions\<close> field, and the transaction document is not among them.
\<close>

theorem transaction_document_not_stored:
  "(let (trans_doc, st') = u_process_accepted_transaction L cfg now t st in
     accounts_col st' = registry_after L now (actions t) (accounts_col st) \<and>
     filter_col st' =
       filter_col st @
       (if start_block_reached cfg
        then selected cfg (actions t) (action_docs L now (trx_id t) 0 (accounts_col st) (actions t))
        else []) \<and>
     list_all (\<lambda>d. \<not> has_field ''actions'' d) (drop (length (filter_col st)) (filter_col st')) \<and>
     trans_doc \<notin> set (drop (length (filter_col st)) (filter_col st')) \<and>
     trans_doc =
       (if actions t = [] then []
        else [(''actions'',
               B_array (map B_document
                 (if start_block_reached cfg
                  then action_docs L now (trx_id t) 0 (accounts_col st) (actions t)
                  else [])))]))"
proof (cases "start_block_reached cfg")
  case True
  let ?docs = "action_docs L now (trx_id t) 0 (accounts_col st) (actions t)"
  let ?ds = "selected cfg (actions t) ?docs"
  have sub: "set ?ds \<subseteq> set ?docs" by (rule selected_subset)
  have na: "list_all (\<lambda>d. \<not> has_field ''actions'' d) ?docs" by (rule action_docs_no_actions)
  from sub na have la: "list_all (\<lambda>d. \<not> has_field ''actions'' d) ?ds"
    by (auto simp: list_all_iff)
  have nt: "[(''actions'', B_array (map B_document ?docs))] \<notin> set ?ds"
    using la by (auto simp: list_all_iff has_field_def)
  have ne: "actions t = [] \<Longrightarrow> ?ds = []" by (simp add: selected_def)
  show ?thesis
    using la nt ne True by (auto simp: process_reached[OF True])
next
  case False
  then show ?thesis by (simp add: process_not_reached)
qed

text \<open>
  A transaction with a \<open>newaccount\<close> action, output enabled, empty filter set: the account
  collection is written, the filter collection is not.
\<close>

theorem transaction_document_not_stored_counterexample:
  "accounts_col empty_store = [] \<and>
   accounts_col (snd (u_process_accepted_transaction demo_lib (plugin_initialize 0 []) 3
      \<lparr>trx_id = ''t1'', actions = [newaccount_alice]\<rparr> empty_store)) =
     [\<lparr>oid = 0, acc_name = ''alice'', createdAt = 3, abi = None, updatedAt = None\<rparr>] \<and>
   filter_col (snd (u_process_accepted_transaction demo_lib (plugin_initialize 0 []) 3
      \<lparr>trx_id = ''t1'', actions = [newaccount_alice]\<rparr> empty_store)) = []"
  by (simp add: u_process_accepted_transaction_def process_action_def plugin_initialize_def
        update_account_def insert_one_def fresh_oid_def newaccount_def newaccount_alice_def
        empty_store_def demo_lib_def Let_def)

lemma plugin_initialize_reached: "start_block_reached (plugin_initialize H fc) = (H = 0)"
  by (simp add: plugin_initialize_def Let_def)

text \<open>
  Claim C1. The claim says that with a start height \<open>H > 0\<close> nothing is persisted below
  \<open>H\<close> while the registry is still updated, and that persistence resumes at \<open>H\<close>. The
  handler receives no height and \<open>start_block_reached\<close> is assigned only when \<open>H = 0\<close>:
  with \<open>H > 0\<close> no sequence of events, whatever their heights, adds a document to the
  filter collection; the registry is updated by every event.
\<close>

theorem start_height_never_reached:
  assumes "0 < H"
  shows "filter_col (process_all L (plugin_initialize H fc) evs st) = filter_col st \<and>
         accounts_col (process_accepted_transaction L (plugin_initialize H fc) now t st) =
           registry_after L now (actions t) (accounts_col st)"
proof -
  have nr: "\<not> start_block_reached (plugin_initialize H fc)"
    using assms by (simp add: plugin_initialize_reached)
  have "filter_col (process_all L (plugin_initialize H fc) evs st) = filter_col st"
    by (induction evs arbitrary: st)
       (auto simp: process_all_def process_accepted_transaction_def process_not_reached[OF nr])
  then show ?thesis
    by (simp add: process_accepted_transaction_def process_not_reached[OF nr])
qed

text \<open>Start height 5, filter set \<open>{alice}\<close>, an event with an action of \<open>alice\<close>.\<close>

theorem start_height_never_reached_witness:
  "(0::nat) < 5 \<and>
   filter_col (process_all demo_lib (plugin_initialize 5 [''alice''])
      [(3, \<lparr>trx_id = ''t1'', actions = [alice_transfer]\<rparr>)] empty_store) = []"
  using start_height_never_reached[of 5 demo_lib "[''alice'']"
      "[(3, \<lparr>trx_id = ''t1'', actions = [alice_transfer]\<rparr>)]" empty_store]
  by (simp add: empty_store_def)


end
